theory Spec2Isabelle
  imports Complex_Main "HOL-Library.Word" "HOL-Library.Multiset" "HOL-Library.Product_Lexorder"
begin

section \<open>Data model (main.py, lines 20-36)\<close>

text \<open>
  The dataclass \<open>Brick\<close> and the pydantic models \<open>Node\<close> and \<open>WorkflowGraph\<close>.
  Every field carries a prefix (\<open>b_\<close>, \<open>n_\<close>, \<open>g_\<close>), since \<open>id\<close> is the identity
  function of HOL and a field called \<open>x\<close> or \<open>nodes\<close> would capture every variable of
  that name.

  A Python float is a finite number, an infinity or NaN. The finite ones are taken
  from the reals (every double is one, and so is every \<open>int\<close> a caller may pass); what
  an arithmetic operation rounds to is not computed here (see \<open>truediv\<close>). The
  comparisons are those of IEEE 754: every comparison with NaN is false.
\<close>

datatype pyfloat = Finite real | PosInf | NegInf | NaN

fun py_lt :: "pyfloat \<Rightarrow> pyfloat \<Rightarrow> bool" where
  "py_lt NaN b = False"
| "py_lt a NaN = False"
| "py_lt (Finite a) (Finite b) = (a < b)"
| "py_lt (Finite a) PosInf = True"
| "py_lt (Finite a) NegInf = False"
| "py_lt PosInf b = False"
| "py_lt NegInf NegInf = False"
| "py_lt NegInf b = True"


definition py_eq :: "pyfloat \<Rightarrow> pyfloat \<Rightarrow> bool" where
  "py_eq a b = (a \<noteq> NaN \<and> b \<noteq> NaN \<and> a = b)"

record Brick =
  b_id :: string
  b_color :: string
  b_x :: pyfloat
  b_y :: pyfloat

record Node =
  n_id :: string
  n_type :: string

record WorkflowGraph =
  g_nodes :: "Node list"
  g_edges :: "(string \<times> string) list"

text \<open>Every exception the modelled code can raise.\<close>

datatype error = ValueError string | KeyError string | ZeroDivisionError

section \<open>Constants (main.py, lines 40-58)\<close>

definition COLOR_TO_TYPE :: "string \<rightharpoonup> string" where
  "COLOR_TO_TYPE = map_of
     [(''green'', ''Start''),
      (''blue'', ''Action''),
      (''yellow'', ''Decision''),
      (''red'', ''End'')]"

text \<open>
  A pixel of \<open>img_hsv\<close> is three unsigned bytes (hue, saturation, value); a bound
  such as \<open>np.array([35, 50, 50])\<close> is three integers. \<open>HSV_RANGES\<close> is a dict, read
  in insertion order by \<open>.items()\<close>: an association list. Its value for red is a list
  of two ranges where the other colours have one range; here every value is a list
  of ranges, of one element for the other colours.
\<close>

type_synonym pixel = "8 word \<times> 8 word \<times> 8 word"
type_synonym bound = "nat \<times> nat \<times> nat"
type_synonym hsv_range = "bound \<times> bound"

definition HSV_RANGES :: "(string \<times> hsv_range list) list" where
  "HSV_RANGES =
     [(''green'', [((35, 50, 50), (85, 255, 255))]),
      (''blue'', [((90, 50, 50), (130, 255, 255))]),
      (''yellow'', [((20, 100, 100), (35, 255, 255))]),
      (''red'', [((0, 50, 50), (10, 255, 255)),
                 ((170, 50, 50), (180, 255, 255))])]"

section \<open>Formatting an integer in an f-string\<close>

text \<open>
  \<open>f"{len(start_nodes)}"\<close> and \<open>f"b{brick_counter}"\<close> print a non-negative integer in
  decimal, without leading zeros.
\<close>

definition digit_char :: "nat \<Rightarrow> char" where
  "digit_char d = ''0123456789'' ! d"

function str_nat :: "nat \<Rightarrow> string" where
  "str_nat n = (if n < 10 then [digit_char n] else str_nat (n div 10) @ [digit_char (n mod 10)])"
  by pat_completeness auto
termination
  by (relation "measure (\<lambda>n. n)") auto

declare str_nat.simps [simp del]

section \<open>The built-in \<open>sorted\<close>\<close>

text \<open>
  \<open>sorted(xs, key=k)\<close> copies the list and runs CPython's \<open>list.sort\<close> on the keys, which
  compares with \<open><\<close> only. On a list of fewer than 64 elements \<open>list.sort\<close> of CPython 3.11
  is what follows: \<open>count_run\<close> takes the longest run at the front that is nowhere
  decreasing, or that is strictly decreasing and is then reversed, and \<open>binarysort\<close>
  inserts every later element into the run at the place a binary search gives.

  Where the comparison is a linear order on the keys (no key is NaN) the result of a
  stable sort is unique, so what follows is the result of \<open>sorted\<close> at every length and on
  every release. Where a key is NaN the comparisons are no order and the result depends
  on the algorithm: what follows is then the result for lists of fewer than 64 elements
  on CPython 3.11. On 64 elements or more CPython merges several runs, and later
  releases find the first run in another way; there \<open>sorted\<close> may return another
  arrangement of the same elements. The inputs \<open>nan_input\<close> and \<open>nan_tie_input\<close> below are
  sorted in the same way by both ways of finding the run: in the first no element is
  smaller than the one before it, and in the second the first run ends at a smaller
  element and its first element is smaller than its last.
\<close>

function bisect :: "('a \<Rightarrow> 'a \<Rightarrow> bool) \<Rightarrow> 'a \<Rightarrow> 'a list \<Rightarrow> nat \<Rightarrow> nat \<Rightarrow> nat" where
  "bisect lt pivot a l r =
     (if l < r then
        (let p = l + (r - l) div 2
         in if lt pivot (a ! p) then bisect lt pivot a l p else bisect lt pivot a (p + 1) r)
      else l)"
  by pat_completeness auto
termination
  by (relation "measure (\<lambda>(lt, pivot, a, l, r). r - l)") auto

declare bisect.simps [simp del]

definition insert_pivot :: "('a \<Rightarrow> 'a \<Rightarrow> bool) \<Rightarrow> 'a \<Rightarrow> 'a list \<Rightarrow> 'a list" where
  "insert_pivot lt pivot a =
     (let l = bisect lt pivot a 0 (length a) in take l a @ pivot # drop l a)"

definition binarysort :: "('a \<Rightarrow> 'a \<Rightarrow> bool) \<Rightarrow> 'a list \<Rightarrow> 'a list \<Rightarrow> 'a list" where
  "binarysort lt run rest = fold (insert_pivot lt) rest run"

fun asc_run :: "('a \<Rightarrow> 'a \<Rightarrow> bool) \<Rightarrow> 'a list \<Rightarrow> nat" where
  "asc_run lt (x # y # ys) = (if lt y x then 1 else 1 + asc_run lt (y # ys))"
| "asc_run lt xs = length xs"

fun desc_run :: "('a \<Rightarrow> 'a \<Rightarrow> bool) \<Rightarrow> 'a list \<Rightarrow> nat" where
  "desc_run lt (x # y # ys) = (if lt y x then 1 + desc_run lt (y # ys) else 1)"
| "desc_run lt xs = length xs"

definition count_run :: "('a \<Rightarrow> 'a \<Rightarrow> bool) \<Rightarrow> 'a list \<Rightarrow> nat \<times> bool" where
  "count_run lt xs =
     (case xs of
        x # y # ys \<Rightarrow> if lt y x then (desc_run lt xs, True) else (asc_run lt xs, False)
      | _ \<Rightarrow> (length xs, False))"

definition list_sort :: "('a \<Rightarrow> 'a \<Rightarrow> bool) \<Rightarrow> 'a list \<Rightarrow> 'a list" where
  "list_sort lt xs =
     (if length xs < 2 then xs
      else
        (let (n, descending) = count_run lt xs;
             run = (if descending then rev (take n xs) else take n xs)
         in binarysort lt run (drop n xs)))"

definition py_sorted :: "('a \<Rightarrow> pyfloat) \<Rightarrow> 'a list \<Rightarrow> 'a list" where
  "py_sorted key xs = list_sort (\<lambda>a b. py_lt (key a) (key b)) xs"

section \<open>Workflow logic (main.py, lines 131-175)\<close>

text \<open>
  \<open>Node(id=brick.id, type=COLOR_TO_TYPE[brick.color])\<close>: the subscript raises
  \<open>KeyError\<close> on a colour that is not a key of the table.
\<close>

definition make_node :: "Brick \<Rightarrow> error + Node" where
  "make_node brick =
     (case COLOR_TO_TYPE (b_color brick) of
        None \<Rightarrow> Inl (KeyError (b_color brick))
      | Some t \<Rightarrow> Inr \<lparr>n_id = b_id brick, n_type = t\<rparr>)"

text \<open>The list comprehension over \<open>sorted_bricks\<close>: the first exception ends it.\<close>

fun make_nodes :: "Brick list \<Rightarrow> error + Node list" where
  "make_nodes [] = Inr []"
| "make_nodes (brick # rest) =
     (case make_node brick of
        Inl e \<Rightarrow> Inl e
      | Inr n \<Rightarrow> (case make_nodes rest of Inl e \<Rightarrow> Inl e | Inr ns \<Rightarrow> Inr (n # ns)))"

text \<open>
  The loop \<open>for i in range(len(sorted_bricks) - 1)\<close>; \<open>range\<close> of a negative number is
  empty, as the truncating subtraction on \<open>nat\<close> makes \<open>[0..<0 - 1]\<close>.
\<close>

definition make_edges :: "Brick list \<Rightarrow> (string \<times> string) list" where
  "make_edges sorted_bricks =
     map (\<lambda>i. (b_id (sorted_bricks ! i), b_id (sorted_bricks ! (i + 1))))
       [0..<length sorted_bricks - 1]"

text \<open>
  The locals \<open>valid_bricks\<close> and \<open>sorted_bricks\<close> as functions of the argument.
\<close>

definition valid_bricks :: "Brick list \<Rightarrow> Brick list" where
  "valid_bricks bricks = filter (\<lambda>b. COLOR_TO_TYPE (b_color b) \<noteq> None) bricks"

definition sorted_bricks :: "Brick list \<Rightarrow> Brick list" where
  "sorted_bricks bricks = py_sorted b_x (valid_bricks bricks)"

definition bricks_to_workflow :: "Brick list \<Rightarrow> error + WorkflowGraph" where
  "bricks_to_workflow bricks =
     (if valid_bricks bricks = [] then
        Inl (ValueError ''No interpretable bricks found'')
      else
        case make_nodes (sorted_bricks bricks) of
          Inl e \<Rightarrow> Inl e
        | Inr nodes \<Rightarrow>
            let start_nodes = filter (\<lambda>n. n_type n = ''Start'') nodes;
                end_nodes = filter (\<lambda>n. n_type n = ''End'') nodes
            in
              if length start_nodes = 0 then
                Inl (ValueError ''Workflow must have exactly one Start node (green brick)'')
              else if length start_nodes > 1 then
                Inl (ValueError (''Workflow has '' @ str_nat (length start_nodes)
                       @ '' Start nodes, but must have exactly one''))
              else if length end_nodes = 0 then
                Inl (ValueError ''Workflow must have exactly one End node (red brick)'')
              else if length end_nodes > 1 then
                Inl (ValueError (''Workflow has '' @ str_nat (length end_nodes)
                       @ '' End nodes, but must have exactly one''))
              else
                Inr \<lparr>g_nodes = nodes, g_edges = make_edges (sorted_bricks bricks)\<rparr>)"

section \<open>Brick detection (main.py, lines 62-127)\<close>

text \<open>
  \<open>cv2.inRange\<close> at one pixel: every channel lies between its two bounds, both
  included (the semantics OpenCV documents).
\<close>

fun inRange :: "pixel \<Rightarrow> bound \<Rightarrow> bound \<Rightarrow> bool" where
  "inRange (h, s, v) (lh, ls, lv) (uh, us, uv) =
     (lh \<le> unat h \<and> unat h \<le> uh \<and> ls \<le> unat s \<and> unat s \<le> us \<and> lv \<le> unat v \<and> unat v \<le> uv)"

text \<open>Lines 89-94 at one pixel: the mask of a colour, red being the union of two masks.\<close>

definition color_mask :: "string \<Rightarrow> hsv_range list \<Rightarrow> pixel \<Rightarrow> bool" where
  "color_mask color_name hsv_range p =
     (if color_name = ''red'' then
        (let mask1 = inRange p (fst (hsv_range ! 0)) (snd (hsv_range ! 0));
             mask2 = inRange p (fst (hsv_range ! 1)) (snd (hsv_range ! 1))
         in mask1 \<or> mask2)
      else inRange p (fst (hsv_range ! 0)) (snd (hsv_range ! 0)))"

definition mask :: "string \<Rightarrow> hsv_range list \<Rightarrow> pixel list list \<Rightarrow> bool list list" where
  "mask color_name hsv_range img_hsv = map (map (color_mask color_name hsv_range)) img_hsv"

text \<open>
  The value at a pixel of the mask that the loop over \<open>HSV_RANGES.items()\<close> computes
  for the colour \<open>color_name\<close>.
\<close>

definition mask_at :: "string \<Rightarrow> pixel \<Rightarrow> bool" where
  "mask_at color_name p =
     list_ex (\<lambda>(c, hsv_range). c = color_name \<and> color_mask c hsv_range p) HSV_RANGES"

text \<open>
  A contour is represented by what the code reads from it: \<open>cv2.contourArea(contour)\<close>
  and the entries \<open>m00\<close>, \<open>m10\<close>, \<open>m01\<close> of \<open>cv2.moments(contour)\<close>. They are Python
  floats.
\<close>

record contour =
  c_area :: pyfloat
  c_m00 :: pyfloat
  c_m10 :: pyfloat
  c_m01 :: pyfloat

text \<open>
  The division \<open>/\<close> of two Python floats raises on a divisor equal to zero and returns
  the correctly rounded quotient otherwise. The rounding is not computed here: the
  quotient of IEEE 754 is the parameter \<open>fdiv\<close>.
\<close>

definition truediv ::
  "(pyfloat \<Rightarrow> pyfloat \<Rightarrow> pyfloat) \<Rightarrow> pyfloat \<Rightarrow> pyfloat \<Rightarrow> error + pyfloat" where
  "truediv fdiv a b = (if py_eq b (Finite 0) then Inl ZeroDivisionError else Inr (fdiv a b))"

text \<open>
  The loop \<open>for contour in contours\<close> (lines 104-125). Its state is the list \<open>bricks\<close>
  and \<open>brick_counter\<close>.
\<close>

fun contour_loop ::
  "(pyfloat \<Rightarrow> pyfloat \<Rightarrow> pyfloat) \<Rightarrow> string \<Rightarrow> contour list \<Rightarrow> Brick list \<times> nat
     \<Rightarrow> error + Brick list \<times> nat" where
  "contour_loop fdiv color_name [] (bricks, brick_counter) = Inr (bricks, brick_counter)"
| "contour_loop fdiv color_name (contour # contours) (bricks, brick_counter) =
     (if py_lt (c_area contour) (Finite 100) then
        contour_loop fdiv color_name contours (bricks, brick_counter)
      else if py_eq (c_m00 contour) (Finite 0) then
        contour_loop fdiv color_name contours (bricks, brick_counter)
      else
        case truediv fdiv (c_m10 contour) (c_m00 contour) of
          Inl e \<Rightarrow> Inl e
        | Inr cx \<Rightarrow>
            (case truediv fdiv (c_m01 contour) (c_m00 contour) of
               Inl e \<Rightarrow> Inl e
             | Inr cy \<Rightarrow>
                 contour_loop fdiv color_name contours
                   (bricks @ [\<lparr>b_id = ''b'' @ str_nat brick_counter, b_color = color_name,
                                b_x = cx, b_y = cy\<rparr>],
                    brick_counter + 1)))"

text \<open>
  The loop \<open>for color_name, hsv_range in HSV_RANGES.items()\<close> (lines 87-125). The
  OpenCV steps between the mask and the contours (the two \<open>morphologyEx\<close> calls and
  \<open>findContours\<close>) are the parameter \<open>find_contours\<close>.
\<close>

fun color_loop ::
  "(bool list list \<Rightarrow> contour list) \<Rightarrow> (pyfloat \<Rightarrow> pyfloat \<Rightarrow> pyfloat) \<Rightarrow> pixel list list
     \<Rightarrow> (string \<times> hsv_range list) list \<Rightarrow> Brick list \<times> nat \<Rightarrow> error + Brick list \<times> nat" where
  "color_loop find_contours fdiv img_hsv [] st = Inr st"
| "color_loop find_contours fdiv img_hsv ((color_name, hsv_range) # items) st =
     (case contour_loop fdiv color_name (find_contours (mask color_name hsv_range img_hsv)) st of
        Inl e \<Rightarrow> Inl e
      | Inr st' \<Rightarrow> color_loop find_contours fdiv img_hsv items st')"

text \<open>
  The function from line 84 on, applied to \<open>img_hsv\<close> (the conversions of lines 73-82
  are OpenCV's).
\<close>

definition detect_bricks_from_image ::
  "(bool list list \<Rightarrow> contour list) \<Rightarrow> (pyfloat \<Rightarrow> pyfloat \<Rightarrow> pyfloat) \<Rightarrow> pixel list list
     \<Rightarrow> error + Brick list" where
  "detect_bricks_from_image find_contours fdiv img_hsv =
     (case color_loop find_contours fdiv img_hsv HSV_RANGES ([], 1) of
        Inl e \<Rightarrow> Inl e
      | Inr (bricks, brick_counter) \<Rightarrow> Inr bricks)"

section \<open>The failure kinds of the specification\<close>

text \<open>
  The code raises one exception class, \<open>ValueError\<close>, and tells the failures apart by
  the message. Each kind of the specification names the message of one \<open>raise\<close>.
\<close>

definition NoInterpretableObjects :: error where
  "NoInterpretableObjects = ValueError ''No interpretable bricks found''"

definition MissingStart :: error where
  "MissingStart = ValueError ''Workflow must have exactly one Start node (green brick)''"

definition DuplicateStart :: "nat \<Rightarrow> error" where
  "DuplicateStart k =
     ValueError (''Workflow has '' @ str_nat k @ '' Start nodes, but must have exactly one'')"

definition MissingEnd :: error where
  "MissingEnd = ValueError ''Workflow must have exactly one End node (red brick)''"

definition DuplicateEnd :: "nat \<Rightarrow> error" where
  "DuplicateEnd k =
     ValueError (''Workflow has '' @ str_nat k @ '' End nodes, but must have exactly one'')"

text \<open>The number of bricks of one colour in a list, and the node a valid brick becomes.\<close>

definition count_color :: "string \<Rightarrow> Brick list \<Rightarrow> nat" where
  "count_color c bricks = length (filter (\<lambda>b. b_color b = c) bricks)"

definition node_of :: "Brick \<Rightarrow> Node" where
  "node_of brick = \<lparr>n_id = b_id brick, n_type = the (COLOR_TO_TYPE (b_color brick))\<rparr>"

section \<open>The inputs of the scenarios\<close>

definition scenario_A :: "Brick list" where
  "scenario_A =
     [\<lparr>b_id = ''b1'', b_color = ''green'', b_x = Finite 100, b_y = Finite 200\<rparr>,
      \<lparr>b_id = ''b2'', b_color = ''blue'', b_x = Finite 250, b_y = Finite 200\<rparr>,
      \<lparr>b_id = ''b3'', b_color = ''yellow'', b_x = Finite 400, b_y = Finite 200\<rparr>,
      \<lparr>b_id = ''b4'', b_color = ''blue'', b_x = Finite 550, b_y = Finite 200\<rparr>,
      \<lparr>b_id = ''b5'', b_color = ''red'', b_x = Finite 700, b_y = Finite 200\<rparr>]"

definition graph_A :: WorkflowGraph where
  "graph_A =
     \<lparr>g_nodes =
        [\<lparr>n_id = ''b1'', n_type = ''Start''\<rparr>, \<lparr>n_id = ''b2'', n_type = ''Action''\<rparr>,
         \<lparr>n_id = ''b3'', n_type = ''Decision''\<rparr>, \<lparr>n_id = ''b4'', n_type = ''Action''\<rparr>,
         \<lparr>n_id = ''b5'', n_type = ''End''\<rparr>],
      g_edges = [(''b1'', ''b2''), (''b2'', ''b3''), (''b3'', ''b4''), (''b4'', ''b5'')]\<rparr>"

definition scenario_B :: "Brick list" where
  "scenario_B =
     [\<lparr>b_id = ''b1'', b_color = ''blue'', b_x = Finite 10, b_y = Finite 0\<rparr>,
      \<lparr>b_id = ''b2'', b_color = ''yellow'', b_x = Finite 20, b_y = Finite 0\<rparr>]"

definition scenario_C :: "Brick list" where
  "scenario_C =
     [\<lparr>b_id = ''b1'', b_color = ''green'', b_x = Finite 5, b_y = Finite 0\<rparr>,
      \<lparr>b_id = ''b2'', b_color = ''green'', b_x = Finite 50, b_y = Finite 0\<rparr>,
      \<lparr>b_id = ''b3'', b_color = ''red'', b_x = Finite 100, b_y = Finite 0\<rparr>]"

definition tie_input :: "Brick list" where
  "tie_input =
     [\<lparr>b_id = ''b1'', b_color = ''red'', b_x = Finite 5, b_y = Finite 0\<rparr>,
      \<lparr>b_id = ''b2'', b_color = ''blue'', b_x = Finite 1, b_y = Finite 0\<rparr>,
      \<lparr>b_id = ''b3'', b_color = ''green'', b_x = Finite 5, b_y = Finite 0\<rparr>,
      \<lparr>b_id = ''b4'', b_color = ''yellow'', b_x = Finite 5, b_y = Finite 0\<rparr>]"

definition tie_graph :: WorkflowGraph where
  "tie_graph =
     \<lparr>g_nodes =
        [\<lparr>n_id = ''b2'', n_type = ''Action''\<rparr>, \<lparr>n_id = ''b1'', n_type = ''End''\<rparr>,
         \<lparr>n_id = ''b3'', n_type = ''Start''\<rparr>, \<lparr>n_id = ''b4'', n_type = ''Decision''\<rparr>],
      g_edges = [(''b2'', ''b1''), (''b1'', ''b3''), (''b3'', ''b4'')]\<rparr>"

text \<open>
  Vocabulary for the detector's output: a contour is accepted when it passes both tests
  of the loop (lines 107 and 112), and the data of a brick are its colour and centroid.
\<close>

definition accepted :: "contour \<Rightarrow> bool" where
  "accepted contour =
     (\<not> py_lt (c_area contour) (Finite 100) \<and> \<not> py_eq (c_m00 contour) (Finite 0))"

definition centroid ::
  "(pyfloat \<Rightarrow> pyfloat \<Rightarrow> pyfloat) \<Rightarrow> string \<Rightarrow> contour \<Rightarrow> string \<times> pyfloat \<times> pyfloat" where
  "centroid fdiv color_name contour =
     (color_name, fdiv (c_m10 contour) (c_m00 contour), fdiv (c_m01 contour) (c_m00 contour))"

definition brick_data :: "Brick \<Rightarrow> string \<times> pyfloat \<times> pyfloat" where
  "brick_data b = (b_color b, b_x b, b_y b)"

text \<open>
  A division without rounding, to run the detector on \<open>regions_demo\<close>, whose quotients
  2000 / 200 and 4000 / 200 are whole numbers: the division of IEEE 754 returns them too.
\<close>

fun exact_div :: "pyfloat \<Rightarrow> pyfloat \<Rightarrow> pyfloat" where
  "exact_div (Finite a) (Finite b) = Finite (a / b)"
| "exact_div a b = NaN"

definition regions_demo :: "contour list" where
  "regions_demo =
     [\<lparr>c_area = Finite 50, c_m00 = Finite 50, c_m10 = Finite 500, c_m01 = Finite 500\<rparr>,
      \<lparr>c_area = Finite 150, c_m00 = Finite 0, c_m10 = Finite 0, c_m01 = Finite 0\<rparr>,
      \<lparr>c_area = Finite 200, c_m00 = Finite 200, c_m10 = Finite 2000, c_m01 = Finite 4000\<rparr>]"

text \<open>
  Inputs with a NaN coordinate: three bricks, and seven bricks of which the fifth and
  the seventh have the same x.
\<close>

definition nan_input :: "Brick list" where
  "nan_input =
     [\<lparr>b_id = ''b1'', b_color = ''green'', b_x = Finite 2, b_y = Finite 0\<rparr>,
      \<lparr>b_id = ''b2'', b_color = ''blue'', b_x = NaN, b_y = Finite 0\<rparr>,
      \<lparr>b_id = ''b3'', b_color = ''red'', b_x = Finite 1, b_y = Finite 0\<rparr>]"

definition nan_tie_input :: "Brick list" where
  "nan_tie_input =
     [\<lparr>b_id = ''b1'', b_color = ''blue'', b_x = Finite 1, b_y = Finite 0\<rparr>,
      \<lparr>b_id = ''b2'', b_color = ''blue'', b_x = Finite 2, b_y = Finite 0\<rparr>,
      \<lparr>b_id = ''b3'', b_color = ''blue'', b_x = Finite 9, b_y = Finite 0\<rparr>,
      \<lparr>b_id = ''b4'', b_color = ''blue'', b_x = NaN, b_y = Finite 0\<rparr>,
      \<lparr>b_id = ''b5'', b_color = ''green'', b_x = Finite 5, b_y = Finite 0\<rparr>,
      \<lparr>b_id = ''b6'', b_color = ''blue'', b_x = Finite 0, b_y = Finite 0\<rparr>,
      \<lparr>b_id = ''b7'', b_color = ''red'', b_x = Finite 5, b_y = Finite 0\<rparr>]"

text \<open>
  The comparison \<open>lt\<close> agrees on a set with a linear order of keys; the floats other
  than NaN are ordered as their ranks.
\<close>

definition agrees :: "('a \<Rightarrow> 'a \<Rightarrow> bool) \<Rightarrow> ('a \<Rightarrow> 'k::linorder) \<Rightarrow> 'a set \<Rightarrow> bool" where
  "agrees lt f A = (\<forall>a \<in> A. \<forall>b \<in> A. lt a b \<longleftrightarrow> f a < f b)"

fun rank :: "pyfloat \<Rightarrow> nat \<times> real" where
  "rank NegInf = (0, 0)"
| "rank (Finite r) = (1, r)"
| "rank PosInf = (2, 0)"
| "rank NaN = (3, 0)"

section \<open>Decimal rendering is injective\<close>

lemma digit_char_inj: "a < 10 \<Longrightarrow> b < 10 \<Longrightarrow> digit_char a = digit_char b \<Longrightarrow> a = b"
proof -
  assume a: "a < 10" and b: "b < 10" and e: "digit_char a = digit_char b"
  have d: "distinct ''0123456789''" by simp
  have l: "length ''0123456789'' = 10" by simp
  from d a b e l show ?thesis
    unfolding digit_char_def by (metis nth_eq_iff_index_eq)
qed

lemma str_nat_nonempty: "str_nat n \<noteq> []"
  by (subst str_nat.simps) simp

lemma str_nat_inj: "str_nat n = str_nat m \<Longrightarrow> n = m"
proof (induction n arbitrary: m rule: str_nat.induct)
  case (1 n)
  show ?case
  proof (cases "n < 10")
    case True
    then have sn: "str_nat n = [digit_char n]" by (subst str_nat.simps) simp
    show ?thesis
    proof (cases "m < 10")
      case True
      then have "str_nat m = [digit_char m]" by (subst str_nat.simps) simp
      with sn "1.prems" have "digit_char n = digit_char m" by simp
      with \<open>n < 10\<close> \<open>m < 10\<close> show ?thesis by (rule digit_char_inj)
    next
      case False
      then have "str_nat m = str_nat (m div 10) @ [digit_char (m mod 10)]"
        by (subst str_nat.simps) simp
      with sn "1.prems" have "str_nat (m div 10) = []" by simp
      then show ?thesis by (simp add: str_nat_nonempty)
    qed
  next
    case False
    then have sn: "str_nat n = str_nat (n div 10) @ [digit_char (n mod 10)]"
      by (subst str_nat.simps) simp
    show ?thesis
    proof (cases "m < 10")
      case True
      then have "str_nat m = [digit_char m]" by (subst str_nat.simps) simp
      with sn "1.prems" have "str_nat (n div 10) = []" by simp
      then show ?thesis by (simp add: str_nat_nonempty)
    next
      case m: False
      then have "str_nat m = str_nat (m div 10) @ [digit_char (m mod 10)]"
        by (subst str_nat.simps) simp
      with sn "1.prems" have e1: "str_nat (n div 10) = str_nat (m div 10)"
        and e2: "digit_char (n mod 10) = digit_char (m mod 10)" by simp_all
      from "1.IH" [OF False e1] have q: "n div 10 = m div 10" .
      have r: "n mod 10 = m mod 10" by (rule digit_char_inj [OF _ _ e2]) simp_all
      from q r show ?thesis by (metis div_mult_mod_eq)
    qed
  qed
qed

section \<open>\<open>sorted\<close> rearranges; on a linear order it sorts and is stable\<close>

lemma mset_insert_pivot: "mset (insert_pivot lt pivot a) = add_mset pivot (mset a)"
proof -
  have "mset (take l a @ pivot # drop l a) = add_mset pivot (mset a)" for l
    by (metis append_take_drop_id mset.simps(2) mset_append union_mset_add_mset_right)
  then show ?thesis by (simp add: insert_pivot_def Let_def)
qed

lemma mset_binarysort: "mset (binarysort lt run rest) = mset run + mset rest"
  unfolding binarysort_def
  by (induction rest arbitrary: run) (simp_all add: mset_insert_pivot)

lemma mset_list_sort: "mset (list_sort lt xs) = mset xs"
proof (cases "length xs < 2")
  case True
  then show ?thesis by (simp add: list_sort_def)
next
  case False
  obtain n d where c: "count_run lt xs = (n, d)" by (cases "count_run lt xs")
  have "mset (take n xs) + mset (drop n xs) = mset xs"
    by (metis append_take_drop_id mset_append)
  then show ?thesis
    using False by (simp add: list_sort_def c mset_binarysort)
qed

lemma mset_py_sorted: "mset (py_sorted key xs) = mset xs"
  by (simp add: py_sorted_def mset_list_sort)

lemma bisect_bounds: "l \<le> r \<Longrightarrow> l \<le> bisect lt pivot a l r \<and> bisect lt pivot a l r \<le> r"
proof (induction lt pivot a l r rule: bisect.induct)
  case (1 lt pivot a l r)
  show ?case
  proof (cases "l < r")
    case False
    with "1.prems" show ?thesis by (subst (1 2) bisect.simps) simp
  next
    case True
    let ?p = "l + (r - l) div 2"
    have p: "l \<le> ?p" "?p < r" using True by auto
    show ?thesis
    proof (cases "lt pivot (a ! ?p)")
      case lp: True
      from "1.IH"(1) [OF True refl lp] p
      have "l \<le> bisect lt pivot a l ?p \<and> bisect lt pivot a l ?p \<le> ?p" by simp
      moreover have "bisect lt pivot a l r = bisect lt pivot a l ?p"
        using True lp by (subst bisect.simps) (simp add: Let_def)
      ultimately show ?thesis using p by simp
    next
      case lp: False
      from "1.IH"(2) [OF True refl lp] p
      have "?p + 1 \<le> bisect lt pivot a (?p + 1) r \<and> bisect lt pivot a (?p + 1) r \<le> r" by simp
      moreover have "bisect lt pivot a l r = bisect lt pivot a (?p + 1) r"
        using True lp by (subst bisect.simps) (simp add: Let_def)
      ultimately show ?thesis using p by simp
    qed
  qed
qed

lemma bisect_split:
  fixes f :: "'a \<Rightarrow> 'k::linorder"
  assumes "sorted (map f a)" and "r \<le> length a" and "l \<le> r"
    and "\<forall>i<length a. lt pivot (a ! i) \<longleftrightarrow> f pivot < f (a ! i)"
    and "\<forall>i<l. f (a ! i) \<le> f pivot"
    and "\<forall>i. r \<le> i \<and> i < length a \<longrightarrow> f pivot < f (a ! i)"
  shows "(\<forall>i<bisect lt pivot a l r. f (a ! i) \<le> f pivot)
       \<and> (\<forall>i. bisect lt pivot a l r \<le> i \<and> i < length a \<longrightarrow> f pivot < f (a ! i))"
  using assms
proof (induction lt pivot a l r rule: bisect.induct)
  case (1 lt pivot a l r)
  show ?case
  proof (cases "l < r")
    case False
    then have "bisect lt pivot a l r = l" by (subst bisect.simps) simp
    moreover from False "1.prems"(3) have "l = r" by simp
    ultimately show ?thesis using "1.prems"(5,6) by simp
  next
    case True
    let ?p = "l + (r - l) div 2"
    have p: "l \<le> ?p" "?p < r" using True by auto
    then have pl: "?p < length a" using "1.prems"(2) by simp
    have mono: "f (a ! i) \<le> f (a ! j)" if "i \<le> j" "j < length a" for i j
      using "1.prems"(1) that by (simp add: sorted_iff_nth_mono)
    show ?thesis
    proof (cases "lt pivot (a ! ?p)")
      case lp: True
      then have lt: "f pivot < f (a ! ?p)" using "1.prems"(4) pl by simp
      have hi: "\<forall>i. ?p \<le> i \<and> i < length a \<longrightarrow> f pivot < f (a ! i)"
        using lt mono by (meson less_le_trans)
      have e: "bisect lt pivot a l r = bisect lt pivot a l ?p"
        using True lp by (subst bisect.simps) (simp add: Let_def)
      have "?p \<le> length a" using pl by simp
      from "1.IH"(1) [OF True refl lp "1.prems"(1) this p(1) "1.prems"(4) "1.prems"(5) hi]
      show ?thesis unfolding e .
    next
      case lp: False
      then have ge: "f (a ! ?p) \<le> f pivot" using "1.prems"(4) pl by (simp add: not_less)
      have lo: "\<forall>i<?p + 1. f (a ! i) \<le> f pivot"
      proof (intro allI impI)
        fix i assume "i < ?p + 1"
        then have "i \<le> ?p" by simp
        from mono [OF this pl] ge show "f (a ! i) \<le> f pivot" by simp
      qed
      have e: "bisect lt pivot a l r = bisect lt pivot a (?p + 1) r"
        using True lp by (subst bisect.simps) (simp add: Let_def)
      have "?p + 1 \<le> r" using p by simp
      from "1.IH"(2) [OF True refl lp "1.prems"(1) "1.prems"(2) this "1.prems"(4) lo "1.prems"(6)]
      show ?thesis unfolding e .
    qed
  qed
qed

lemma insert_pivot_split:
  fixes f :: "'a \<Rightarrow> 'k::linorder"
  assumes s: "sorted (map f a)" and ag: "agrees lt f (insert pivot (set a))"
  obtains l where "insert_pivot lt pivot a = take l a @ pivot # drop l a"
    and "\<forall>x \<in> set (take l a). f x \<le> f pivot"
    and "\<forall>x \<in> set (drop l a). f pivot < f x"
proof -
  let ?l = "bisect lt pivot a 0 (length a)"
  have c: "\<forall>i<length a. lt pivot (a ! i) \<longleftrightarrow> f pivot < f (a ! i)"
    using ag by (simp add: agrees_def)
  have "(\<forall>i<?l. f (a ! i) \<le> f pivot)
      \<and> (\<forall>i. ?l \<le> i \<and> i < length a \<longrightarrow> f pivot < f (a ! i))"
    using s c
    by (intro bisect_split [where f = f and a = a and r = "length a" and l = 0
          and lt = lt and pivot = pivot]) auto
  then have lo: "\<forall>i<?l. f (a ! i) \<le> f pivot"
    and hi: "\<forall>i. ?l \<le> i \<and> i < length a \<longrightarrow> f pivot < f (a ! i)"
    by blast+
  have b: "?l \<le> length a" using bisect_bounds [of 0 "length a" lt pivot a] by simp
  have 1: "\<forall>x \<in> set (take ?l a). f x \<le> f pivot"
  proof
    fix x assume "x \<in> set (take ?l a)"
    then obtain i where "i < length (take ?l a)" "take ?l a ! i = x"
      by (auto simp: in_set_conv_nth)
    with lo b show "f x \<le> f pivot" by auto
  qed
  have 2: "\<forall>x \<in> set (drop ?l a). f pivot < f x"
  proof
    fix x assume "x \<in> set (drop ?l a)"
    then obtain i where "i < length (drop ?l a)" "drop ?l a ! i = x"
      by (auto simp: in_set_conv_nth)
    with hi b show "f pivot < f x" by auto
  qed
  have "insert_pivot lt pivot a = take ?l a @ pivot # drop ?l a"
    by (simp add: insert_pivot_def Let_def)
  with 1 2 that show thesis by blast
qed

lemma sorted_insert_pivot:
  fixes f :: "'a \<Rightarrow> 'k::linorder"
  assumes s: "sorted (map f a)" and ag: "agrees lt f (insert pivot (set a))"
  shows "sorted (map f (insert_pivot lt pivot a))"
proof -
  from insert_pivot_split [OF s ag] obtain l where
    e: "insert_pivot lt pivot a = take l a @ pivot # drop l a"
    and lo: "\<forall>x \<in> set (take l a). f x \<le> f pivot"
    and hi: "\<forall>x \<in> set (drop l a). f pivot < f x" by blast
  have st: "sorted (map f (take l a))" and sd: "sorted (map f (drop l a))"
    using s by (simp_all add: take_map [symmetric] drop_map [symmetric])
  have "\<forall>x \<in> set (take l a). \<forall>y \<in> set (drop l a). f x \<le> f y"
    using lo hi by (meson le_less_trans less_imp_le)
  with lo hi st sd show ?thesis
    unfolding e by (auto simp: sorted_append less_imp_le)
qed

lemma filter_insert_pivot:
  fixes f :: "'a \<Rightarrow> 'k::linorder"
  assumes s: "sorted (map f a)" and ag: "agrees lt f (insert pivot (set a))"
  shows "filter (\<lambda>y. f y = k) (insert_pivot lt pivot a) = filter (\<lambda>y. f y = k) (a @ [pivot])"
proof -
  from insert_pivot_split [OF s ag] obtain l where
    e: "insert_pivot lt pivot a = take l a @ pivot # drop l a"
    and lo: "\<forall>x \<in> set (take l a). f x \<le> f pivot"
    and hi: "\<forall>x \<in> set (drop l a). f pivot < f x" by blast
  have a: "filter (\<lambda>y. f y = k) a
      = filter (\<lambda>y. f y = k) (take l a) @ filter (\<lambda>y. f y = k) (drop l a)"
    by (metis append_take_drop_id filter_append)
  show ?thesis
  proof (cases "f pivot = k")
    case True
    with hi have "filter (\<lambda>y. f y = k) (drop l a) = []"
      by (auto simp: filter_empty_conv)
    with True a show ?thesis unfolding e by simp
  next
    case False
    with a show ?thesis unfolding e by simp
  qed
qed

lemma set_insert_pivot: "set (insert_pivot lt pivot a) = insert pivot (set a)"
  using mset_insert_pivot [of lt pivot a, THEN arg_cong, of set_mset] by simp

lemma binarysort_sorted_stable:
  fixes f :: "'a \<Rightarrow> 'k::linorder"
  assumes "sorted (map f run)" and "agrees lt f (set run \<union> set rest)"
  shows "sorted (map f (binarysort lt run rest))
       \<and> filter (\<lambda>y. f y = k) (binarysort lt run rest) = filter (\<lambda>y. f y = k) (run @ rest)"
  using assms
proof (induction rest arbitrary: run)
  case Nil
  then show ?case by (simp add: binarysort_def)
next
  case (Cons pivot rest)
  have ag1: "agrees lt f (insert pivot (set run))"
    using Cons.prems(2) by (auto simp: agrees_def)
  have s1: "sorted (map f (insert_pivot lt pivot run))"
    using Cons.prems(1) ag1 by (rule sorted_insert_pivot)
  have ag2: "agrees lt f (set (insert_pivot lt pivot run) \<union> set rest)"
    using Cons.prems(2) by (auto simp: agrees_def set_insert_pivot)
  from Cons.IH [OF s1 ag2]
  have "sorted (map f (binarysort lt (insert_pivot lt pivot run) rest))"
    and "filter (\<lambda>y. f y = k) (binarysort lt (insert_pivot lt pivot run) rest)
       = filter (\<lambda>y. f y = k) (insert_pivot lt pivot run @ rest)" by simp_all
  moreover have "binarysort lt run (pivot # rest) = binarysort lt (insert_pivot lt pivot run) rest"
    by (simp add: binarysort_def)
  ultimately show ?case
    using filter_insert_pivot [OF Cons.prems(1) ag1, of k] by simp
qed

lemma asc_run_pos: "xs \<noteq> [] \<Longrightarrow> 0 < asc_run lt xs"
  by (induction lt xs rule: asc_run.induct) auto

lemma asc_run_sorted:
  fixes f :: "'a \<Rightarrow> 'k::linorder"
  shows "agrees lt f (set xs) \<Longrightarrow> sorted (map f (take (asc_run lt xs) xs))"
proof (induction lt xs rule: asc_run.induct)
  case (1 lt x y ys)
  show ?case
  proof (cases "lt y x")
    case True
    then show ?thesis by simp
  next
    case False
    have ag: "agrees lt f (set (y # ys))" using "1.prems" by (auto simp: agrees_def)
    from "1.IH" [OF False ag] have s: "sorted (map f (take (asc_run lt (y # ys)) (y # ys)))" .
    from asc_run_pos [of "y # ys" lt] obtain m where m: "asc_run lt (y # ys) = Suc m"
      by (auto simp: gr0_conv_Suc)
    from False "1.prems" have "f x \<le> f y" by (auto simp: agrees_def not_less)
    with s False show ?thesis by (auto simp: m intro: order_trans)
  qed
qed simp_all

lemma desc_run_strict:
  fixes f :: "'a \<Rightarrow> 'k::linorder"
  shows "agrees lt f (set xs) \<Longrightarrow> sorted_wrt (\<lambda>a b. f b < f a) (take (desc_run lt xs) xs)"
proof (induction lt xs rule: desc_run.induct)
  case (1 lt x y ys)
  show ?case
  proof (cases "lt y x")
    case False
    then show ?thesis by simp
  next
    case True
    have ag: "agrees lt f (set (y # ys))" using "1.prems" by (auto simp: agrees_def)
    from "1.IH" [OF True ag]
    have s: "sorted_wrt (\<lambda>a b. f b < f a) (take (desc_run lt (y # ys)) (y # ys))" .
    from True "1.prems" have xy: "f y < f x" by (auto simp: agrees_def)
    have "\<forall>z \<in> set (take (desc_run lt (y # ys)) (y # ys)). f z < f x"
    proof
      fix z assume z: "z \<in> set (take (desc_run lt (y # ys)) (y # ys))"
      show "f z < f x"
      proof (cases "desc_run lt (y # ys)")
        case 0
        with z show ?thesis by simp
      next
        case (Suc m)
        with z have "z = y \<or> z \<in> set (take m ys)" by simp
        moreover from s Suc have "\<forall>w \<in> set (take m ys). f w < f y" by simp
        ultimately show ?thesis using xy by (auto intro: less_trans)
      qed
    qed
    with s True show ?thesis by simp
  qed
qed simp_all

lemma strict_desc_rev_sorted:
  fixes f :: "'a \<Rightarrow> 'k::linorder"
  assumes "sorted_wrt (\<lambda>a b. f b < f a) ys"
  shows "sorted (map f (rev ys))"
proof -
  from assms have "sorted_wrt (\<lambda>a b. f a < f b) (rev ys)"
    by (simp add: sorted_wrt_rev)
  then have "sorted_wrt (\<lambda>a b. f a \<le> f b) (rev ys)"
    by (rule sorted_wrt_mono_rel [rotated]) (simp add: less_imp_le)
  then show ?thesis by (simp add: sorted_map)
qed

lemma strict_desc_filter_rev:
  fixes f :: "'a \<Rightarrow> 'k::linorder"
  shows "sorted_wrt (\<lambda>a b. f b < f a) ys \<Longrightarrow>
     filter (\<lambda>y. f y = k) (rev ys) = filter (\<lambda>y. f y = k) ys"
proof (induction ys)
  case Nil
  show ?case by simp
next
  case (Cons x ys)
  then have lt: "\<forall>y \<in> set ys. f y < f x" and s: "sorted_wrt (\<lambda>a b. f b < f a) ys"
    by simp_all
  show ?case
  proof (cases "f x = k")
    case True
    with lt have "filter (\<lambda>y. f y = k) ys = []" by (auto simp: filter_empty_conv)
    with Cons.IH [OF s] True show ?thesis by simp
  next
    case False
    with Cons.IH [OF s] show ?thesis by simp
  qed
qed

lemma list_sort_sorted_stable:
  fixes f :: "'a \<Rightarrow> 'k::linorder"
  assumes ag: "agrees lt f (set xs)"
  shows "sorted (map f (list_sort lt xs))
       \<and> filter (\<lambda>y. f y = k) (list_sort lt xs) = filter (\<lambda>y. f y = k) xs"
proof (cases "length xs < 2")
  case True
  then have "xs = [] \<or> (\<exists>x. xs = [x])"
    by (cases xs; cases "tl xs") auto
  with True show ?thesis by (auto simp: list_sort_def)
next
  case False
  then obtain x y ys where xs: "xs = x # y # ys"
    by (cases xs; cases "tl xs") auto
  define n where "n = fst (count_run lt xs)"
  define d where "d = snd (count_run lt xs)"
  define run where "run = (if d then rev (take n xs) else take n xs)"
  have ls: "list_sort lt xs = binarysort lt run (drop n xs)"
    using False by (simp add: list_sort_def n_def d_def run_def case_prod_beta Let_def)
  have sr: "sorted (map f run)"
    and fr: "filter (\<lambda>y. f y = k) run = filter (\<lambda>y. f y = k) (take n xs)"
  proof -
    show "sorted (map f run)"
    proof (cases "lt y x")
      case True
      then have "n = desc_run lt xs" "d" by (simp_all add: n_def d_def count_run_def xs)
      with desc_run_strict [OF ag] show ?thesis
        by (simp add: run_def strict_desc_rev_sorted)
    next
      case False
      then have "n = asc_run lt xs" "\<not> d" by (simp_all add: n_def d_def count_run_def xs)
      with asc_run_sorted [OF ag] show ?thesis by (simp add: run_def)
    qed
    show "filter (\<lambda>y. f y = k) run = filter (\<lambda>y. f y = k) (take n xs)"
    proof (cases "lt y x")
      case True
      then have "n = desc_run lt xs" "d" by (simp_all add: n_def d_def count_run_def xs)
      with desc_run_strict [OF ag] show ?thesis
        by (simp add: run_def strict_desc_filter_rev)
    next
      case False
      then have "\<not> d" by (simp add: d_def count_run_def xs)
      then show ?thesis by (simp add: run_def)
    qed
  qed
  have "set run \<union> set (drop n xs) \<subseteq> set xs"
    by (auto simp: run_def dest: in_set_takeD in_set_dropD)
  with ag have ag': "agrees lt f (set run \<union> set (drop n xs))"
    by (auto simp: agrees_def)
  from binarysort_sorted_stable [OF sr ag', of k]
  have "sorted (map f (list_sort lt xs))"
    and "filter (\<lambda>y. f y = k) (list_sort lt xs) = filter (\<lambda>y. f y = k) (run @ drop n xs)"
    unfolding ls by simp_all
  moreover have "filter (\<lambda>y. f y = k) (run @ drop n xs) = filter (\<lambda>y. f y = k) xs"
  proof -
    have "filter (\<lambda>y. f y = k) (run @ drop n xs)
        = filter (\<lambda>y. f y = k) (take n xs) @ filter (\<lambda>y. f y = k) (drop n xs)"
      by (simp add: fr)
    also have "\<dots> = filter (\<lambda>y. f y = k) (take n xs @ drop n xs)"
      by (simp only: filter_append)
    also have "\<dots> = filter (\<lambda>y. f y = k) xs"
      by (simp only: append_take_drop_id)
    finally show ?thesis .
  qed
  ultimately show ?thesis by simp
qed

lemma rank_inj: "rank a = rank b \<longleftrightarrow> a = b"
  by (cases a; cases b) simp_all

lemma py_lt_rank: "a \<noteq> NaN \<Longrightarrow> b \<noteq> NaN \<Longrightarrow> py_lt a b \<longleftrightarrow> rank a < rank b"
  by (cases a; cases b) (simp_all add: less_prod_def)


lemma py_sorted_props:
  assumes "\<forall>x \<in> set xs. key x \<noteq> NaN"
  shows "sorted (map (rank \<circ> key) (py_sorted key xs))"
    and "filter (\<lambda>y. key y = k) (py_sorted key xs) = filter (\<lambda>y. key y = k) xs"
proof -
  have ag: "agrees (\<lambda>a b. py_lt (key a) (key b)) (rank \<circ> key) (set xs)"
    using assms by (simp add: agrees_def py_lt_rank)
  from list_sort_sorted_stable [OF ag]
  show "sorted (map (rank \<circ> key) (py_sorted key xs))" by (simp add: py_sorted_def)
  from list_sort_sorted_stable [OF ag, of "rank k"]
  show "filter (\<lambda>y. key y = k) (py_sorted key xs) = filter (\<lambda>y. key y = k) xs"
    by (simp add: py_sorted_def rank_inj)
qed

lemma length_filter_mset:
  "mset xs = mset ys \<Longrightarrow> length (filter P xs) = length (filter P ys)"
  by (metis mset_filter size_mset)

section \<open>The result of \<open>bricks_to_workflow\<close> in terms of its argument\<close>

lemma COLOR_TO_TYPE_Start: "COLOR_TO_TYPE c = Some ''Start'' \<longleftrightarrow> c = ''green''"
  by (simp add: COLOR_TO_TYPE_def)

lemma COLOR_TO_TYPE_End: "COLOR_TO_TYPE c = Some ''End'' \<longleftrightarrow> c = ''red''"
  by (simp add: COLOR_TO_TYPE_def)

lemma make_nodes_valid:
  "\<forall>b \<in> set bs. COLOR_TO_TYPE (b_color b) \<noteq> None \<Longrightarrow> make_nodes bs = Inr (map node_of bs)"
  by (induction bs) (auto simp: make_node_def node_of_def)

lemma mset_sorted_bricks: "mset (sorted_bricks bs) = mset (valid_bricks bs)"
  by (simp add: sorted_bricks_def mset_py_sorted)

lemma set_sorted_bricks: "set (sorted_bricks bs) = set (valid_bricks bs)"
  using mset_sorted_bricks [of bs] by (rule mset_eq_setD)


lemma sorted_bricks_valid: "\<forall>b \<in> set (sorted_bricks bs). COLOR_TO_TYPE (b_color b) \<noteq> None"
  by (simp add: set_sorted_bricks valid_bricks_def)

lemma make_nodes_sorted_bricks:
  "make_nodes (sorted_bricks bs) = Inr (map node_of (sorted_bricks bs))"
  by (rule make_nodes_valid) (rule sorted_bricks_valid)

lemma n_type_Start:
  "COLOR_TO_TYPE (b_color b) \<noteq> None \<Longrightarrow> (n_type (node_of b) = ''Start'') = (b_color b = ''green'')"
  using COLOR_TO_TYPE_Start [of "b_color b"] by (auto simp: node_of_def)

lemma n_type_End:
  "COLOR_TO_TYPE (b_color b) \<noteq> None \<Longrightarrow> (n_type (node_of b) = ''End'') = (b_color b = ''red'')"
  using COLOR_TO_TYPE_End [of "b_color b"] by (auto simp: node_of_def)

lemma count_Start_nodes:
  "\<forall>b \<in> set bs. COLOR_TO_TYPE (b_color b) \<noteq> None \<Longrightarrow>
     length (filter (\<lambda>n. n_type n = ''Start'') (map node_of bs)) = count_color ''green'' bs"
  by (induction bs) (simp_all add: count_color_def n_type_Start)

lemma count_End_nodes:
  "\<forall>b \<in> set bs. COLOR_TO_TYPE (b_color b) \<noteq> None \<Longrightarrow>
     length (filter (\<lambda>n. n_type n = ''End'') (map node_of bs)) = count_color ''red'' bs"
  by (induction bs) (simp_all add: count_color_def n_type_End)

lemma count_color_py_sorted: "count_color c (py_sorted f bs) = count_color c bs"
  unfolding count_color_def by (rule length_filter_mset) (rule mset_py_sorted)

lemma count_color_valid:
  "COLOR_TO_TYPE c \<noteq> None \<Longrightarrow> count_color c (valid_bricks bs) = count_color c bs"
  by (induction bs) (simp_all add: count_color_def valid_bricks_def)

lemma count_color_sorted_bricks:
  "COLOR_TO_TYPE c \<noteq> None \<Longrightarrow> count_color c (sorted_bricks bs) = count_color c bs"
  by (simp add: sorted_bricks_def count_color_py_sorted count_color_valid)

lemma count_Start_sorted:
  "length (filter (\<lambda>n. n_type n = ''Start'') (map node_of (sorted_bricks bs)))
     = count_color ''green'' bs"
  using count_Start_nodes [OF sorted_bricks_valid, of bs]
  by (simp add: count_color_sorted_bricks COLOR_TO_TYPE_def)

lemma count_End_sorted:
  "length (filter (\<lambda>n. n_type n = ''End'') (map node_of (sorted_bricks bs)))
     = count_color ''red'' bs"
  using count_End_nodes [OF sorted_bricks_valid, of bs]
  by (simp add: count_color_sorted_bricks COLOR_TO_TYPE_def)

lemma bricks_to_workflow_cases:
  "bricks_to_workflow bs =
     (if valid_bricks bs = [] then Inl NoInterpretableObjects
      else if count_color ''green'' bs = 0 then Inl MissingStart
      else if count_color ''green'' bs > 1 then Inl (DuplicateStart (count_color ''green'' bs))
      else if count_color ''red'' bs = 0 then Inl MissingEnd
      else if count_color ''red'' bs > 1 then Inl (DuplicateEnd (count_color ''red'' bs))
      else Inr \<lparr>g_nodes = map node_of (sorted_bricks bs),
                 g_edges = make_edges (sorted_bricks bs)\<rparr>)"
  unfolding bricks_to_workflow_def make_nodes_sorted_bricks sum.case Let_def
    count_Start_sorted count_End_sorted
    NoInterpretableObjects_def MissingStart_def DuplicateStart_def MissingEnd_def DuplicateEnd_def
  by (rule refl)

lemma bricks_to_workflow_Inr:
  "bricks_to_workflow bs = Inr g \<Longrightarrow>
     valid_bricks bs \<noteq> [] \<and> count_color ''green'' bs = 1 \<and> count_color ''red'' bs = 1 \<and>
     g = \<lparr>g_nodes = map node_of (sorted_bricks bs), g_edges = make_edges (sorted_bricks bs)\<rparr>"
  unfolding bricks_to_workflow_cases by (auto split: if_splits)

lemma DuplicateStart_inj: "DuplicateStart a = DuplicateStart b \<Longrightarrow> a = b"
  by (simp add: DuplicateStart_def str_nat_inj)

lemma DuplicateEnd_inj: "DuplicateEnd a = DuplicateEnd b \<Longrightarrow> a = b"
  by (simp add: DuplicateEnd_def str_nat_inj)

lemma DuplicateStart_neq_DuplicateEnd: "DuplicateStart a \<noteq> DuplicateEnd b"
proof
  assume "DuplicateStart a = DuplicateEnd b"
  then have "str_nat a @ '' Start'' @ '' nodes, but must have exactly one''
           = str_nat b @ '' End'' @ '' nodes, but must have exactly one''"
    by (simp add: DuplicateStart_def DuplicateEnd_def)
  then have "(str_nat a @ '' Start'') @ '' nodes, but must have exactly one''
           = (str_nat b @ '' End'') @ '' nodes, but must have exactly one''"
    by (simp only: append_assoc)
  then have "str_nat a @ '' Start'' = str_nat b @ '' End''"
    by (simp only: append_same_eq)
  then have "(str_nat a @ '' Star'') @ ''t'' = (str_nat b @ '' En'') @ ''d''" by simp
  then have "CHR ''t'' = CHR ''d''" by (simp only: append1_eq_conv)
  then show False by simp
qed

lemma kinds_distinct:
  "NoInterpretableObjects \<noteq> MissingStart" "NoInterpretableObjects \<noteq> MissingEnd"
  "NoInterpretableObjects \<noteq> DuplicateStart a" "NoInterpretableObjects \<noteq> DuplicateEnd a"
  "MissingStart \<noteq> MissingEnd" "MissingStart \<noteq> DuplicateStart a" "MissingStart \<noteq> DuplicateEnd a"
  "MissingEnd \<noteq> DuplicateStart a" "MissingEnd \<noteq> DuplicateEnd a"
  by (simp_all add: NoInterpretableObjects_def MissingStart_def MissingEnd_def
      DuplicateStart_def DuplicateEnd_def)

lemma scenario_A_result: "bricks_to_workflow scenario_A = Inr graph_A"
  by code_simp





lemma sorted_bricks_stable:
  assumes "\<forall>b \<in> set (valid_bricks bs). b_x b \<noteq> NaN"
  shows "filter (\<lambda>b. b_x b = k) (sorted_bricks bs) = filter (\<lambda>b. b_x b = k) (valid_bricks bs)"
  unfolding sorted_bricks_def using assms by (rule py_sorted_props(2))


lemma count_color_pos_valid:
  "COLOR_TO_TYPE c \<noteq> None \<Longrightarrow> 0 < count_color c bs \<Longrightarrow> valid_bricks bs \<noteq> []"
proof
  assume c: "COLOR_TO_TYPE c \<noteq> None" and p: "0 < count_color c bs" and e: "valid_bricks bs = []"
  from count_color_valid [OF c, of bs] e have "count_color c bs = 0"
    by (simp add: count_color_def)
  with p show False by simp
qed

lemma green_valid: "0 < count_color ''green'' bs \<Longrightarrow> valid_bricks bs \<noteq> []"
  by (rule count_color_pos_valid) (simp_all add: COLOR_TO_TYPE_def)

lemma red_valid: "0 < count_color ''red'' bs \<Longrightarrow> valid_bricks bs \<noteq> []"
  by (rule count_color_pos_valid) (simp_all add: COLOR_TO_TYPE_def)

lemma DuplicateStart_eq: "DuplicateStart a = DuplicateStart b \<longleftrightarrow> a = b"
  using DuplicateStart_inj by blast

lemma DuplicateEnd_eq: "DuplicateEnd a = DuplicateEnd b \<longleftrightarrow> a = b"
  using DuplicateEnd_inj by blast

lemmas kind_simps =
  kinds_distinct kinds_distinct [symmetric]
  DuplicateStart_neq_DuplicateEnd DuplicateStart_neq_DuplicateEnd [symmetric]
  DuplicateStart_eq DuplicateEnd_eq

lemma fails_iff:
  "(\<exists>e. bricks_to_workflow bs = Inl e) \<longleftrightarrow>
     (valid_bricks bs = [] \<or> count_color ''green'' bs \<noteq> 1 \<or> count_color ''red'' bs \<noteq> 1)"
  unfolding bricks_to_workflow_cases by auto

lemma NoInterpretableObjects_iff:
  "bricks_to_workflow bs = Inl NoInterpretableObjects \<longleftrightarrow> valid_bricks bs = []"
  unfolding bricks_to_workflow_cases by (simp add: kind_simps)

lemma MissingStart_iff:
  "bricks_to_workflow bs = Inl MissingStart \<longleftrightarrow>
     valid_bricks bs \<noteq> [] \<and> count_color ''green'' bs = 0"
  unfolding bricks_to_workflow_cases by (simp add: kind_simps)

lemma MissingEnd_iff:
  "bricks_to_workflow bs = Inl MissingEnd \<longleftrightarrow>
     count_color ''green'' bs = 1 \<and> count_color ''red'' bs = 0"
  unfolding bricks_to_workflow_cases
  using green_valid [of bs] by (auto simp: kind_simps)

lemma DuplicateStart_iff:
  "bricks_to_workflow bs = Inl (DuplicateStart k) \<longleftrightarrow>
     1 < count_color ''green'' bs \<and> k = count_color ''green'' bs"
  unfolding bricks_to_workflow_cases
  using green_valid [of bs] by (auto simp: kind_simps)

lemma DuplicateEnd_iff:
  "bricks_to_workflow bs = Inl (DuplicateEnd k) \<longleftrightarrow>
     count_color ''green'' bs = 1 \<and> 1 < count_color ''red'' bs \<and> k = count_color ''red'' bs"
  unfolding bricks_to_workflow_cases
  using green_valid [of bs] by (auto simp: kind_simps)

lemma tie_result: "bricks_to_workflow tie_input = Inr tie_graph"
  by code_simp

lemma unat_u8_le: "unat (w :: 8 word) \<le> 255"
  using unsigned_less [of w, where ?'a = nat] by simp

lemma red_mask_hue_2:
  "mask_at ''red'' (2, s, v) \<longleftrightarrow> 50 \<le> unat s \<and> 50 \<le> unat v"
  by (auto simp: mask_at_def HSV_RANGES_def color_mask_def unat_u8_le)

lemma red_mask_hue_178:
  "mask_at ''red'' (178, s, v) \<longleftrightarrow> 50 \<le> unat s \<and> 50 \<le> unat v"
  by (auto simp: mask_at_def HSV_RANGES_def color_mask_def unat_u8_le)

lemma red_mask_hue_90: "\<not> mask_at ''red'' (90, s, v)"
  by (simp add: mask_at_def HSV_RANGES_def color_mask_def)

lemma contour_loop_result:
  "\<exists>new. contour_loop fdiv c ks (bricks, n) = Inr (bricks @ new, n + length new)
     \<and> map brick_data new = map (centroid fdiv c) (filter accepted ks)
     \<and> map b_id new = map (\<lambda>i. ''b'' @ str_nat i) [n..<n + length new]"
proof (induction ks arbitrary: bricks n)
  case Nil
  show ?case by simp
next
  case (Cons k ks)
  show ?case
  proof (cases "accepted k")
    case False
    then have "contour_loop fdiv c (k # ks) (bricks, n) = contour_loop fdiv c ks (bricks, n)"
      by (auto simp: accepted_def)
    with Cons.IH [of bricks n] False show ?thesis by simp
  next
    case True
    let ?b = "\<lparr>b_id = ''b'' @ str_nat n, b_color = c,
                b_x = fdiv (c_m10 k) (c_m00 k), b_y = fdiv (c_m01 k) (c_m00 k)\<rparr>"
    from True have "contour_loop fdiv c (k # ks) (bricks, n)
        = contour_loop fdiv c ks (bricks @ [?b], n + 1)"
      by (simp add: accepted_def truediv_def)
    moreover from Cons.IH [of "bricks @ [?b]" "n + 1"]
    obtain new where r: "contour_loop fdiv c ks (bricks @ [?b], n + 1)
          = Inr ((bricks @ [?b]) @ new, n + 1 + length new)"
      and d: "map brick_data new = map (centroid fdiv c) (filter accepted ks)"
      and i: "map b_id new = map (\<lambda>i. ''b'' @ str_nat i) [n + 1..<n + 1 + length new]"
      by blast
    have "n < n + Suc (length new)" by simp
    then have "[n..<n + Suc (length new)] = n # [Suc n..<n + Suc (length new)]"
      by (rule upt_conv_Cons)
    then have "[n..<n + length (?b # new)] = n # [n + 1..<n + 1 + length new]"
      by simp
    then have "map b_id (?b # new) = map (\<lambda>i. ''b'' @ str_nat i) [n..<n + length (?b # new)]"
      using i by simp
    moreover have "map brick_data (?b # new) = map (centroid fdiv c) (filter accepted (k # ks))"
      using True d by (simp add: brick_data_def centroid_def)
    moreover have "contour_loop fdiv c (k # ks) (bricks, n)
        = Inr (bricks @ (?b # new), n + length (?b # new))"
      using calculation(1) r by simp
    ultimately show ?thesis by blast
  qed
qed

lemma color_loop_result:
  "\<exists>new. color_loop fc fdiv img items (bricks, n) = Inr (bricks @ new, n + length new)
     \<and> map brick_data new
       = concat (map (\<lambda>(c, r). map (centroid fdiv c) (filter accepted (fc (mask c r img)))) items)
     \<and> map b_id new = map (\<lambda>i. ''b'' @ str_nat i) [n..<n + length new]"
proof (induction items arbitrary: bricks n)
  case Nil
  show ?case by simp
next
  case (Cons item items)
  obtain c r where item: "item = (c, r)" by (cases item)
  from contour_loop_result [of fdiv c "fc (mask c r img)" bricks n]
  obtain new1 where r1: "contour_loop fdiv c (fc (mask c r img)) (bricks, n)
        = Inr (bricks @ new1, n + length new1)"
    and d1: "map brick_data new1 = map (centroid fdiv c) (filter accepted (fc (mask c r img)))"
    and i1: "map b_id new1 = map (\<lambda>i. ''b'' @ str_nat i) [n..<n + length new1]"
    by blast
  from Cons.IH [of "bricks @ new1" "n + length new1"]
  obtain new2 where r2: "color_loop fc fdiv img items (bricks @ new1, n + length new1)
        = Inr ((bricks @ new1) @ new2, n + length new1 + length new2)"
    and d2: "map brick_data new2
       = concat (map (\<lambda>(c, r). map (centroid fdiv c) (filter accepted (fc (mask c r img)))) items)"
    and i2: "map b_id new2
       = map (\<lambda>i. ''b'' @ str_nat i) [n + length new1..<n + length new1 + length new2]"
    by blast
  have "color_loop fc fdiv img (item # items) (bricks, n)
      = Inr (bricks @ (new1 @ new2), n + length (new1 @ new2))"
    using r1 r2 by (simp add: item add.assoc)
  moreover have "map brick_data (new1 @ new2)
      = concat (map (\<lambda>(c, r). map (centroid fdiv c) (filter accepted (fc (mask c r img))))
          (item # items))"
    using d1 d2 by (simp add: item)
  moreover have "[n..<n + length (new1 @ new2)]
      = [n..<n + length new1] @ [n + length new1..<n + length new1 + length new2]"
    using upt_add_eq_append [of n "n + length new1" "length new2"]
    by (simp add: add.assoc)
  then have "map b_id (new1 @ new2)
      = map (\<lambda>i. ''b'' @ str_nat i) [n..<n + length (new1 @ new2)]"
    using i1 i2 by simp
  ultimately show ?case by blast
qed

section \<open>Claims\<close>

text \<open>
  C1. Whenever \<open>bricks_to_workflow\<close> returns a graph, exactly one of its nodes has the
  type Start and exactly one has the type End.
\<close>

theorem C1_exactly_one_start_end:
  assumes "bricks_to_workflow bs = Inr g"
  shows "length (filter (\<lambda>n. n_type n = ''Start'') (g_nodes g)) = 1
       \<and> length (filter (\<lambda>n. n_type n = ''End'') (g_nodes g)) = 1"
proof -
  from bricks_to_workflow_Inr [OF assms]
  have n: "g_nodes g = map node_of (sorted_bricks bs)"
    and c: "count_color ''green'' bs = 1" "count_color ''red'' bs = 1"
    by simp_all
  show ?thesis
    unfolding n count_Start_sorted count_End_sorted c by simp
qed

theorem C1_exactly_one_start_end_witness:
  "bricks_to_workflow scenario_A = Inr graph_A
   \<and> length (filter (\<lambda>n. n_type n = ''Start'') (g_nodes graph_A)) = 1
   \<and> length (filter (\<lambda>n. n_type n = ''End'') (g_nodes graph_A)) = 1"
  using C1_exactly_one_start_end [OF scenario_A_result] scenario_A_result by simp

text \<open>
  C6. Scenario A: the five bricks green, blue, yellow, blue, red at x = 100, 250, 400,
  550, 700 with the identifiers b1 to b5 give the nodes Start, Action, Decision,
  Action, End in the order b1 to b5 and the edges (b1,b2), (b2,b3), (b3,b4), (b4,b5).
\<close>

theorem C6_scenario_A:
  "bricks_to_workflow
     [\<lparr>b_id = ''b1'', b_color = ''green'', b_x = Finite 100, b_y = Finite 200\<rparr>,
      \<lparr>b_id = ''b2'', b_color = ''blue'', b_x = Finite 250, b_y = Finite 200\<rparr>,
      \<lparr>b_id = ''b3'', b_color = ''yellow'', b_x = Finite 400, b_y = Finite 200\<rparr>,
      \<lparr>b_id = ''b4'', b_color = ''blue'', b_x = Finite 550, b_y = Finite 200\<rparr>,
      \<lparr>b_id = ''b5'', b_color = ''red'', b_x = Finite 700, b_y = Finite 200\<rparr>]
   = Inr \<lparr>g_nodes =
            [\<lparr>n_id = ''b1'', n_type = ''Start''\<rparr>, \<lparr>n_id = ''b2'', n_type = ''Action''\<rparr>,
             \<lparr>n_id = ''b3'', n_type = ''Decision''\<rparr>, \<lparr>n_id = ''b4'', n_type = ''Action''\<rparr>,
             \<lparr>n_id = ''b5'', n_type = ''End''\<rparr>],
          g_edges = [(''b1'', ''b2''), (''b2'', ''b3''), (''b3'', ''b4''), (''b4'', ''b5'')]\<rparr>"
  by code_simp




text \<open>
  C3. \<open>bricks_to_workflow\<close> fails exactly when no brick has a recognized colour, or
  the number of green bricks is not one, or the number of red bricks is not one; the
  failure is NoInterpretableObjects exactly when no brick has a recognized colour. The
  positions of the Start and End nodes are not checked: one red brick to the left of
  one green brick is a success, with the Start node last.
\<close>

theorem C3_fails_iff:
  "((\<exists>e. bricks_to_workflow bs = Inl e) \<longleftrightarrow>
      (valid_bricks bs = [] \<or> count_color ''green'' bs \<noteq> 1 \<or> count_color ''red'' bs \<noteq> 1))
   \<and> (bricks_to_workflow bs = Inl NoInterpretableObjects \<longleftrightarrow> valid_bricks bs = [])
   \<and> bricks_to_workflow
        [\<lparr>b_id = ''b1'', b_color = ''red'', b_x = Finite 10, b_y = Finite 0\<rparr>,
         \<lparr>b_id = ''b2'', b_color = ''green'', b_x = Finite 20, b_y = Finite 0\<rparr>]
      = Inr \<lparr>g_nodes = [\<lparr>n_id = ''b1'', n_type = ''End''\<rparr>, \<lparr>n_id = ''b2'', n_type = ''Start''\<rparr>],
             g_edges = [(''b1'', ''b2'')]\<rparr>"
proof -
  have "bricks_to_workflow
        [\<lparr>b_id = ''b1'', b_color = ''red'', b_x = Finite 10, b_y = Finite 0\<rparr>,
         \<lparr>b_id = ''b2'', b_color = ''green'', b_x = Finite 20, b_y = Finite 0\<rparr>]
      = Inr \<lparr>g_nodes = [\<lparr>n_id = ''b1'', n_type = ''End''\<rparr>, \<lparr>n_id = ''b2'', n_type = ''Start''\<rparr>],
             g_edges = [(''b1'', ''b2'')]\<rparr>"
    by code_simp
  with fails_iff [of bs] NoInterpretableObjects_iff [of bs] show ?thesis by blast
qed

theorem C3_fails_iff_witness:
  "valid_bricks [] = [] \<and> (\<exists>e. bricks_to_workflow [] = Inl e)
   \<and> bricks_to_workflow [] = Inl NoInterpretableObjects"
proof -
  have v: "valid_bricks [] = []" by (simp add: valid_bricks_def)
  from C3_fails_iff [of "[]"] v show ?thesis by blast
qed

text \<open>
  C4, as amended. Scenario B (a blue brick at x = 10 and a yellow one at x = 20) fails
  with MissingStart. The MissingEnd condition holds there as well and is not reported:
  the Start checks come first, and MissingEnd is raised exactly when there is one green
  brick and no red one.
\<close>

theorem C4_first_violation:
  "bricks_to_workflow scenario_B = Inl MissingStart
   \<and> count_color ''red'' scenario_B = 0
   \<and> (bricks_to_workflow bs = Inl MissingStart \<longleftrightarrow>
        valid_bricks bs \<noteq> [] \<and> count_color ''green'' bs = 0)
   \<and> (bricks_to_workflow bs = Inl MissingEnd \<longleftrightarrow>
        count_color ''green'' bs = 1 \<and> count_color ''red'' bs = 0)"
proof -
  have r: "count_color ''red'' scenario_B = 0"
    by (simp add: scenario_B_def count_color_def)
  have "valid_bricks scenario_B \<noteq> []" "count_color ''green'' scenario_B = 0"
    by (simp_all add: scenario_B_def valid_bricks_def COLOR_TO_TYPE_def count_color_def)
  then have "bricks_to_workflow scenario_B = Inl MissingStart"
    by (simp add: MissingStart_iff)
  with r MissingStart_iff [of bs] MissingEnd_iff [of bs] show ?thesis by blast
qed

theorem C4_first_violation_witness:
  "count_color ''green'' [\<lparr>b_id = ''b1'', b_color = ''green'', b_x = Finite 10, b_y = Finite 0\<rparr>] = 1
   \<and> count_color ''red'' [\<lparr>b_id = ''b1'', b_color = ''green'', b_x = Finite 10, b_y = Finite 0\<rparr>] = 0
   \<and> bricks_to_workflow [\<lparr>b_id = ''b1'', b_color = ''green'', b_x = Finite 10, b_y = Finite 0\<rparr>] = Inl MissingEnd"
proof -
  have c: "count_color ''green'' [\<lparr>b_id = ''b1'', b_color = ''green'', b_x = Finite 10, b_y = Finite 0\<rparr>] = 1"
    "count_color ''red'' [\<lparr>b_id = ''b1'', b_color = ''green'', b_x = Finite 10, b_y = Finite 0\<rparr>] = 0"
    by (simp_all add: count_color_def)
  from C4_first_violation [of "[\<lparr>b_id = ''b1'', b_color = ''green'', b_x = Finite 10, b_y = Finite 0\<rparr>]"] c
  show ?thesis by blast
qed

text \<open>
  C4 as stated fails: on scenario B the one exception raised carries the Start message,
  which is not the MissingEnd failure, although no brick is red.
\<close>

theorem C4_counterexample:
  "bricks_to_workflow
     [\<lparr>b_id = ''b1'', b_color = ''blue'', b_x = Finite 10, b_y = Finite 0\<rparr>,
      \<lparr>b_id = ''b2'', b_color = ''yellow'', b_x = Finite 20, b_y = Finite 0\<rparr>]
   = Inl (ValueError ''Workflow must have exactly one Start node (green brick)'')
   \<and> count_color ''red''
       [\<lparr>b_id = ''b1'', b_color = ''blue'', b_x = Finite 10, b_y = Finite 0\<rparr>,
        \<lparr>b_id = ''b2'', b_color = ''yellow'', b_x = Finite 20, b_y = Finite 0\<rparr>] = 0
   \<and> bricks_to_workflow
       [\<lparr>b_id = ''b1'', b_color = ''blue'', b_x = Finite 10, b_y = Finite 0\<rparr>,
        \<lparr>b_id = ''b2'', b_color = ''yellow'', b_x = Finite 20, b_y = Finite 0\<rparr>]
     \<noteq> Inl MissingEnd"
  by code_simp

text \<open>
  C5. A DuplicateStart failure carries the number of green bricks, which is the number
  of Start nodes the code counted, and a DuplicateEnd failure carries the number of red
  bricks, the number of End nodes; the count can be read back from the message, since
  the failure with count k is raised for no other count. Scenario C (green at x = 5 and
  x = 50, red at x = 100) fails with DuplicateStart and the count 2.
\<close>

theorem C5_duplicate_count:
  "(bricks_to_workflow bs = Inl (DuplicateStart k) \<longleftrightarrow>
      1 < count_color ''green'' bs \<and> k = count_color ''green'' bs)
   \<and> (bricks_to_workflow bs = Inl (DuplicateEnd k) \<longleftrightarrow>
      count_color ''green'' bs = 1 \<and> 1 < count_color ''red'' bs \<and> k = count_color ''red'' bs)
   \<and> count_color ''green'' bs
      = length (filter (\<lambda>n. n_type n = ''Start'') (map node_of (sorted_bricks bs)))
   \<and> count_color ''red'' bs
      = length (filter (\<lambda>n. n_type n = ''End'') (map node_of (sorted_bricks bs)))
   \<and> bricks_to_workflow
        [\<lparr>b_id = ''b1'', b_color = ''green'', b_x = Finite 5, b_y = Finite 0\<rparr>,
         \<lparr>b_id = ''b2'', b_color = ''green'', b_x = Finite 50, b_y = Finite 0\<rparr>,
         \<lparr>b_id = ''b3'', b_color = ''red'', b_x = Finite 100, b_y = Finite 0\<rparr>]
      = Inl (DuplicateStart 2)
   \<and> DuplicateStart 2 = ValueError ''Workflow has 2 Start nodes, but must have exactly one''"
proof -
  have c: "count_color ''green'' scenario_C = 2"
    by (simp add: scenario_C_def count_color_def)
  have "bricks_to_workflow scenario_C = Inl (DuplicateStart 2)"
    unfolding DuplicateStart_iff c by simp
  then have s: "bricks_to_workflow
        [\<lparr>b_id = ''b1'', b_color = ''green'', b_x = Finite 5, b_y = Finite 0\<rparr>,
         \<lparr>b_id = ''b2'', b_color = ''green'', b_x = Finite 50, b_y = Finite 0\<rparr>,
         \<lparr>b_id = ''b3'', b_color = ''red'', b_x = Finite 100, b_y = Finite 0\<rparr>]
      = Inl (DuplicateStart 2)"
    by (simp add: scenario_C_def)
  have m: "DuplicateStart 2 = ValueError ''Workflow has 2 Start nodes, but must have exactly one''"
    by (simp add: DuplicateStart_def str_nat.simps digit_char_def)
  from DuplicateStart_iff [of bs k] DuplicateEnd_iff [of bs k]
    count_Start_sorted [of bs, symmetric] count_End_sorted [of bs, symmetric] s m
  show ?thesis by blast
qed

theorem C5_duplicate_count_witness:
  "1 < count_color ''green'' scenario_C
   \<and> bricks_to_workflow scenario_C = Inl (DuplicateStart (count_color ''green'' scenario_C))
   \<and> count_color ''green'' scenario_C = 2"
proof -
  have c: "count_color ''green'' scenario_C = 2"
    by (simp add: scenario_C_def count_color_def)
  from C5_duplicate_count [of scenario_C "count_color ''green'' scenario_C"] c show ?thesis by simp
qed

text \<open>
  C10, as amended. When no recognized brick has a NaN x-coordinate the sort is stable:
  for every coordinate k, the sorted bricks with x = k are the recognized bricks with
  x = k of the input, in the order of the input; the nodes of a returned graph are made
  from the sorted bricks one by one.
\<close>

theorem C10_stable_ties:
  assumes "bricks_to_workflow bs = Inr g"
    and "\<forall>b \<in> set (valid_bricks bs). b_x b \<noteq> NaN"
  shows "g_nodes g = map node_of (sorted_bricks bs)
       \<and> filter (\<lambda>b. b_x b = k) (sorted_bricks bs)
         = filter (\<lambda>b. COLOR_TO_TYPE (b_color b) \<noteq> None \<and> b_x b = k) bs"
proof -
  from bricks_to_workflow_Inr [OF assms(1)]
  have n: "g_nodes g = map node_of (sorted_bricks bs)" by simp
  have "filter (\<lambda>b. b_x b = k) (sorted_bricks bs) = filter (\<lambda>b. b_x b = k) (valid_bricks bs)"
    using assms(2) by (rule sorted_bricks_stable)
  also have "\<dots> = filter (\<lambda>b. COLOR_TO_TYPE (b_color b) \<noteq> None \<and> b_x b = k) bs"
    unfolding valid_bricks_def by (rule filter_filter)
  finally show ?thesis using n by simp
qed

theorem C10_stable_ties_witness:
  "bricks_to_workflow tie_input = Inr tie_graph
   \<and> NaN \<notin> b_x ` set (valid_bricks tie_input)
   \<and> map n_id (g_nodes tie_graph) = [''b2'', ''b1'', ''b3'', ''b4'']
   \<and> map b_id (filter (\<lambda>b. b_x b = Finite 5) (sorted_bricks tie_input))
     = [''b1'', ''b3'', ''b4'']"
proof -
  have nn: "\<forall>b \<in> set (valid_bricks tie_input). b_x b \<noteq> NaN"
    by (simp add: tie_input_def valid_bricks_def)
  have f: "filter (\<lambda>b. COLOR_TO_TYPE (b_color b) \<noteq> None \<and> b_x b = Finite 5) tie_input
      = [\<lparr>b_id = ''b1'', b_color = ''red'', b_x = Finite 5, b_y = Finite 0\<rparr>,
         \<lparr>b_id = ''b3'', b_color = ''green'', b_x = Finite 5, b_y = Finite 0\<rparr>,
         \<lparr>b_id = ''b4'', b_color = ''yellow'', b_x = Finite 5, b_y = Finite 0\<rparr>]"
    by (simp add: tie_input_def COLOR_TO_TYPE_def)
  from C10_stable_ties [OF tie_result nn, of "Finite 5"]
  have "filter (\<lambda>b. b_x b = Finite 5) (sorted_bricks tie_input)
      = filter (\<lambda>b. COLOR_TO_TYPE (b_color b) \<noteq> None \<and> b_x b = Finite 5) tie_input"
    by (rule conjunct2)
  then have "map b_id (filter (\<lambda>b. b_x b = Finite 5) (sorted_bricks tie_input))
      = [''b1'', ''b3'', ''b4'']"
    unfolding f by simp
  moreover have "map n_id (g_nodes tie_graph) = [''b2'', ''b1'', ''b3'', ''b4'']"
    by (simp add: tie_graph_def)
  moreover from nn have "NaN \<notin> b_x ` set (valid_bricks tie_input)" by force
  ultimately show ?thesis using tie_result by (intro conjI)
qed

text \<open>
  C10 as stated fails with a NaN x-coordinate: of the two bricks at x = 5, b5 comes
  before b7 in the input and after it in the nodes of the graph, which the call returns.
\<close>

theorem C10_counterexample:
  "bricks_to_workflow nan_tie_input
   = Inr \<lparr>g_nodes =
            [\<lparr>n_id = ''b6'', n_type = ''Action''\<rparr>, \<lparr>n_id = ''b1'', n_type = ''Action''\<rparr>,
             \<lparr>n_id = ''b2'', n_type = ''Action''\<rparr>, \<lparr>n_id = ''b7'', n_type = ''End''\<rparr>,
             \<lparr>n_id = ''b3'', n_type = ''Action''\<rparr>, \<lparr>n_id = ''b4'', n_type = ''Action''\<rparr>,
             \<lparr>n_id = ''b5'', n_type = ''Start''\<rparr>],
          g_edges =
            [(''b6'', ''b1''), (''b1'', ''b2''), (''b2'', ''b7''), (''b7'', ''b3''),
             (''b3'', ''b4''), (''b4'', ''b5'')]\<rparr>
   \<and> map b_id (filter (\<lambda>b. b_x b = Finite 5) nan_tie_input) = [''b5'', ''b7'']
   \<and> map b_id (filter (\<lambda>b. b_x b = Finite 5) (sorted_bricks nan_tie_input)) = [''b7'', ''b5'']"
  by code_simp

text \<open>
  C7, as amended. A pixel of hue 2 or of hue 178 is in the red mask exactly when its
  saturation and its value are both at least 50; a pixel of hue 90 is never in the red
  mask.
\<close>

theorem C7_red_wraparound:
  "(mask_at ''red'' (2, s, v) \<longleftrightarrow> 50 \<le> unat s \<and> 50 \<le> unat v)
   \<and> (mask_at ''red'' (178, s, v) \<longleftrightarrow> 50 \<le> unat s \<and> 50 \<le> unat v)
   \<and> \<not> mask_at ''red'' (90, s, v)"
  using red_mask_hue_2 red_mask_hue_178 red_mask_hue_90 by blast

theorem C7_red_wraparound_witness:
  "50 \<le> unat (200 :: 8 word) \<and> 50 \<le> unat (180 :: 8 word)
   \<and> mask_at ''red'' (2, 200, 180) \<and> mask_at ''red'' (178, 200, 180)
   \<and> \<not> mask_at ''red'' (90, 200, 180)"
  using C7_red_wraparound [of 200 180] by simp

text \<open>
  C7 as stated fails for a pale pixel: hue 2 with saturation 40 is outside the red
  mask, whose two ranges both start at saturation 50.
\<close>

theorem C7_counterexample: "\<not> mask_at ''red'' (2, 40, 200)"
  by (simp add: mask_at_def HSV_RANGES_def color_mask_def)

text \<open>
  C8. The detector never raises: both divisions by the zeroth moment are reached only
  after the test that it is not zero, so no \<open>ZeroDivisionError\<close> is possible. Its output
  is, colour by colour in the order of \<open>HSV_RANGES\<close>, one brick for each contour whose
  area is not below 100 and whose zeroth moment is not zero, with the quotients that
  Python's division gives as its coordinates, and nothing for any other contour; the
  identifiers are b1, b2, ... without gaps.
\<close>

theorem C8_degenerate_regions_skipped:
  "\<exists>bricks. detect_bricks_from_image fc fdiv img = Inr bricks
     \<and> map brick_data bricks
       = concat (map (\<lambda>(c, r). map (centroid fdiv c) (filter accepted (fc (mask c r img))))
           HSV_RANGES)
     \<and> map b_id bricks = map (\<lambda>i. ''b'' @ str_nat i) [1..<1 + length bricks]"
proof -
  from color_loop_result [of fc fdiv img HSV_RANGES "[]" 1]
  obtain new where "color_loop fc fdiv img HSV_RANGES ([], 1) = Inr (new, 1 + length new)"
    and "map brick_data new
       = concat (map (\<lambda>(c, r). map (centroid fdiv c) (filter accepted (fc (mask c r img))))
           HSV_RANGES)"
    and "map b_id new = map (\<lambda>i. ''b'' @ str_nat i) [1..<1 + length new]"
    by auto
  then show ?thesis by (simp add: detect_bricks_from_image_def)
qed

theorem C8_degenerate_regions_skipped_witness:
  "\<exists>bricks. detect_bricks_from_image (\<lambda>m. regions_demo) exact_div [] = Inr bricks
     \<and> map brick_data bricks
       = [(''green'', Finite 10, Finite 20), (''blue'', Finite 10, Finite 20),
          (''yellow'', Finite 10, Finite 20), (''red'', Finite 10, Finite 20)]
     \<and> map b_id bricks = [''b1'', ''b2'', ''b3'', ''b4'']"
proof -
  from C8_degenerate_regions_skipped [of "\<lambda>m. regions_demo" exact_div "[]"]
  obtain bricks where r: "detect_bricks_from_image (\<lambda>m. regions_demo) exact_div [] = Inr bricks"
    and d: "map brick_data bricks
       = concat (map (\<lambda>(c, r). map (centroid exact_div c) (filter accepted regions_demo))
           HSV_RANGES)"
    and i: "map b_id bricks = map (\<lambda>i. ''b'' @ str_nat i) [1..<1 + length bricks]"
    by (elim exE conjE)
  have f: "filter accepted regions_demo
      = [\<lparr>c_area = Finite 200, c_m00 = Finite 200, c_m10 = Finite 2000, c_m01 = Finite 4000\<rparr>]"
    by (simp add: regions_demo_def accepted_def py_eq_def)
  have d': "map brick_data bricks
       = [(''green'', Finite 10, Finite 20), (''blue'', Finite 10, Finite 20),
          (''yellow'', Finite 10, Finite 20), (''red'', Finite 10, Finite 20)]"
    unfolding d f by (simp add: HSV_RANGES_def centroid_def)
  from arg_cong [OF d', of length] have l: "length bricks = 4" by simp
  have u: "[1..<1 + 4] = [1, 2, 3, 4::nat]" by code_simp
  have "map b_id bricks = [''b1'', ''b2'', ''b3'', ''b4'']"
    unfolding i l u by (simp add: str_nat.simps digit_char_def)
  with r d' show ?thesis by (intro exI [of _ bricks] conjI)
qed

end
